theory Spec2Isabelle
  imports Main "HOL-Library.AList"
begin

section \<open>A shallow embedding of turing\_simulator.py\<close>

text \<open>
  Symbols, state identifiers and move directions are Python strings in the source, so
  they are strings here. A machine that was never loaded has \<open>current_state = None\<close>
  and \<open>tape = None\<close>; both fields are options. The characters of an input string are
  modelled as \<open>char\<close>, and each one becomes the one-character symbol \<open>[c]\<close>.
\<close>

type_synonym symbol = string
type_synonym state = string

subsection \<open>class Tape\<close>

text \<open>
  \<open>content\<close> is a Python dict from positions to symbols. It is an association list
  with distinct keys: \<open>AList.update\<close> overwrites a present key in place and appends a
  new one, as a dict does, and \<open>map_of\<close> is the lookup.
\<close>

record Tape =
  content :: "(int \<times> symbol) list"
  blank :: symbol
  head :: int

text \<open>The loop \<open>for i, symb in enumerate(initial_content): self.content[i] = symb\<close>.\<close>

fun enumerate_into :: "int \<Rightarrow> string \<Rightarrow> (int \<times> symbol) list \<Rightarrow> (int \<times> symbol) list" where
  "enumerate_into i [] c = c"
| "enumerate_into i (symb # rest) c = enumerate_into (i + 1) rest (AList.update i [symb] c)"

definition Tape_init :: "string \<Rightarrow> symbol \<Rightarrow> Tape" where
  "Tape_init initial_content b =
     \<lparr>content = (if initial_content \<noteq> [] then enumerate_into 0 initial_content [] else []),
      blank = b,
      head = 0\<rparr>"

definition Tape_read :: "Tape \<Rightarrow> symbol" where
  "Tape_read t = (case map_of (content t) (head t) of None \<Rightarrow> blank t | Some symb \<Rightarrow> symb)"

text \<open>
  \<open>write\<close> keeps the source's two tests as they are: the inner \<open>del\<close> sits under a
  condition that contradicts the outer one.
\<close>

definition Tape_write :: "Tape \<Rightarrow> symbol \<Rightarrow> Tape" where
  "Tape_write t symb =
     (if symb = blank t \<and> head t \<notin> fst ` set (content t) then
        (if head t \<in> fst ` set (content t)
         then t\<lparr>content := AList.delete (head t) (content t)\<rparr>
         else t)
      else t\<lparr>content := AList.update (head t) symb (content t)\<rparr>)"

definition Tape_move :: "Tape \<Rightarrow> string \<Rightarrow> Tape" where
  "Tape_move t direction =
     (if direction = ''R'' then t\<lparr>head := head t + 1\<rparr>
      else if direction = ''L'' then t\<lparr>head := head t - 1\<rparr>
      else t)"

text \<open>\<open>__str__\<close>: the bounded window around the head that \<open>get_config\<close> records.\<close>

definition empty_rendering :: "symbol \<Rightarrow> string" where
  "empty_rendering b = ''...'' @ b @ ''['' @ b @ '']...''"

definition Tape_str :: "Tape \<Rightarrow> string" where
  "Tape_str t =
     (if content t = [] then empty_rendering (blank t)
      else
        let positions = sort (map fst (content t)) in
        if positions = [] then empty_rendering (blank t)
        else
          let min_pos = Min (set positions);
              max_pos = Max (set positions);
              start = max (max (min_pos - 5) (head t - 25)) (- 50);
              end_pos = min (min (max_pos + 5) (head t + 25)) 50;
              s = map (\<lambda>pos.
                    let symb = (case map_of (content t) pos of None \<Rightarrow> blank t | Some x \<Rightarrow> x)
                    in if pos = head t then ''['' @ symb @ '']'' else symb)
                  [start..end_pos];
              left_ellipsis = (if start > min_pos - 5 then ''...'' else '''');
              right_ellipsis = (if end_pos < max_pos + 5 then ''...'' else '''')
          in left_ellipsis @ concat s @ right_ellipsis)"

subsection \<open>class TransitionFunction\<close>

text \<open>The dict \<open>transitions\<close>, an association list as the tape's \<open>content\<close> is.\<close>

record TransitionFunction =
  transitions :: "((state \<times> symbol) \<times> (state \<times> symbol \<times> string)) list"

definition TransitionFunction_init :: TransitionFunction where
  "TransitionFunction_init = \<lparr>transitions = []\<rparr>"

definition TransitionFunction_add ::
  "TransitionFunction \<Rightarrow> state \<Rightarrow> symbol \<Rightarrow> state \<Rightarrow> symbol \<Rightarrow> string \<Rightarrow> TransitionFunction" where
  "TransitionFunction_add tf current_state read_sym next_state write_sym direction =
     (let key = (current_state, read_sym)
      in tf\<lparr>transitions := AList.update key (next_state, write_sym, direction) (transitions tf)\<rparr>)"

text \<open>
  The keys of the table are pairs of a state identifier and a symbol, so the lookup with
  the \<open>None\<close> state of a machine that was never loaded finds nothing.
\<close>

definition TransitionFunction_get ::
  "TransitionFunction \<Rightarrow> state option \<Rightarrow> symbol \<Rightarrow> (state \<times> symbol \<times> string) option" where
  "TransitionFunction_get tf st symb =
     (case st of None \<Rightarrow> None | Some q \<Rightarrow> map_of (transitions tf) (q, symb))"

subsection \<open>class TuringMachine\<close>

record TuringMachine =
  states :: "state list"
  input_alphabet :: "symbol list"
  tape_alphabet :: "symbol list"
  initial_state :: state
  accept_states :: "state list"
  reject_states :: "state set"
  tm_blank :: symbol
  transition_function :: TransitionFunction
  current_state :: "state option"
  tape :: "Tape option"

text \<open>
  The exceptions of the source. Both \<open>ValueError\<close>s are told apart by their message:
  \<open>InvalidInputSymbol\<close> is the one of \<open>load_input\<close>, \<open>NotInitialized\<close> the one of
  \<open>run\<close>. \<open>AttributeError\<close> is what Python raises for an attribute of \<open>None\<close>, and
  \<open>EOFError\<close> what \<open>input()\<close> raises at the end of the console input.
\<close>

datatype error = InvalidInputSymbol | NotInitialized | AttributeError | EOFError

text \<open>The status strings \<open>'accept'\<close>, \<open>'reject'\<close>, \<open>'continue'\<close> and \<open>'loop'\<close>.\<close>

datatype status = Accept | Reject | Continue | Loop

text \<open>The dict that \<open>get_config\<close> returns.\<close>

record config =
  estado :: "state option"
  cinta :: string
  cabezal :: int

definition TuringMachine_init ::
  "state list \<Rightarrow> symbol list \<Rightarrow> symbol list \<Rightarrow> state \<Rightarrow> state list \<Rightarrow> symbol \<Rightarrow> TuringMachine" where
  "TuringMachine_init sts input_alph tape_alph initial accept b =
     \<lparr>states = sts,
      input_alphabet = input_alph,
      tape_alphabet = tape_alph,
      initial_state = initial,
      accept_states = accept,
      reject_states = {''q_reject''},
      tm_blank = b,
      transition_function = TransitionFunction_init,
      current_state = None,
      tape = None\<rparr>"

definition add_transition ::
  "state \<Rightarrow> symbol \<Rightarrow> state \<Rightarrow> symbol \<Rightarrow> string \<Rightarrow> TuringMachine \<Rightarrow> TuringMachine" where
  "add_transition current read_sym next_s write_sym dir m =
     m\<lparr>transition_function :=
         TransitionFunction_add (transition_function m) current read_sym next_s write_sym dir\<rparr>"

text \<open>
  Every operation that can raise returns the error or the value together with the
  machine as the call leaves it: an exception does not undo a mutation.
\<close>

definition load_input :: "string \<Rightarrow> TuringMachine \<Rightarrow> (error + unit) \<times> TuringMachine" where
  "load_input input_str m =
     (if \<exists>c \<in> set input_str. [c] \<notin> set (input_alphabet m @ [tm_blank m])
      then (Inl InvalidInputSymbol, m)
      else (Inr (), m\<lparr>tape := Some (Tape_init input_str (tm_blank m)),
                       current_state := Some (initial_state m)\<rparr>))"

text \<open>\<open>self.current_state in ...\<close>: \<open>None\<close> is no member of a collection of identifiers.\<close>

definition state_in :: "state option \<Rightarrow> state set \<Rightarrow> bool" where
  "state_in st S = (case st of None \<Rightarrow> False | Some q \<Rightarrow> q \<in> S)"

definition step :: "TuringMachine \<Rightarrow> (error + status) \<times> TuringMachine" where
  "step m =
     (if state_in (current_state m) (set (accept_states m)) then (Inr Accept, m)
      else if state_in (current_state m) (reject_states m) then (Inr Reject, m)
      else
        (case tape m of
           None \<Rightarrow> (Inl AttributeError, m)
         | Some t \<Rightarrow>
             let symb = Tape_read t in
             (case TransitionFunction_get (transition_function m) (current_state m) symb of
                None \<Rightarrow> (Inr Reject, m)
              | Some (next_state, write_sym, direction) \<Rightarrow>
                  (Inr Continue,
                   m\<lparr>tape := Some (Tape_move (Tape_write t write_sym) direction),
                     current_state := Some next_state\<rparr>))))"

definition get_config :: "TuringMachine \<Rightarrow> error + config" where
  "get_config m =
     (case tape m of
        None \<Rightarrow> Inl AttributeError
      | Some t \<Rightarrow> Inr \<lparr>estado = current_state m, cinta = Tape_str t, cabezal = head t\<rparr>)"

subsection \<open>The console of trace mode\<close>

text \<open>
  \<open>print\<close> and \<open>input\<close> act on the console: \<open>stdout\<close> collects what was written,
  \<open>stdin\<close> holds the lines still to be read. The line of \<open>print\<close> is kept as its two
  parts, the step number and the configuration, instead of the formatted text.
\<close>

datatype printed = Paso int config | Prompt

record console =
  stdin :: "string list"
  stdout :: "printed list"

definition py_print :: "printed \<Rightarrow> console \<Rightarrow> console" where
  "py_print x io = io\<lparr>stdout := stdout io @ [x]\<rparr>"

definition py_input :: "console \<Rightarrow> (error + string) \<times> console" where
  "py_input io =
     (let io1 = io\<lparr>stdout := stdout io @ [Prompt]\<rparr> in
      case stdin io1 of
        [] \<Rightarrow> (Inl EOFError, io1)
      | l # rest \<Rightarrow> (Inr l, io1\<lparr>stdin := rest\<rparr>))"

definition trace :: "bool \<Rightarrow> int \<Rightarrow> config \<Rightarrow> console \<Rightarrow> (error + unit) \<times> console" where
  "trace step_by_step steps cfg io =
     (if step_by_step then
        (case py_input (py_print (Paso (steps + 1) cfg) io) of
           (Inl e, io') \<Rightarrow> (Inl e, io')
         | (Inr _, io') \<Rightarrow> (Inr (), io'))
      else (Inr (), io))"

subsection \<open>TuringMachine.run\<close>

text \<open>
  The loop of \<open>run\<close> works on the machine, the console and its two locals \<open>history\<close>
  and \<open>steps\<close>. \<open>calls\<close> is an observer that the source does not have: it lists what
  each call of \<open>step\<close> made by the loop returned or raised, in order.
\<close>

record run_state =
  machine :: TuringMachine
  io :: console
  history :: "config list"
  steps :: int
  calls :: "(error + status) list"

function run_loop :: "int \<Rightarrow> bool \<Rightarrow> run_state \<Rightarrow> (error + status) \<times> run_state" where
  "run_loop max_steps step_by_step rs =
     (if steps rs < max_steps then
        (case get_config (machine rs) of
           Inl e \<Rightarrow> (Inl e, rs)
         | Inr cfg \<Rightarrow>
             let rs1 = rs\<lparr>history := history rs @ [cfg]\<rparr> in
             (case trace step_by_step (steps rs1) cfg (io rs1) of
                (Inl e, io') \<Rightarrow> (Inl e, rs1\<lparr>io := io'\<rparr>)
              | (Inr _, io') \<Rightarrow>
                  (case step (machine rs1) of
                     (Inl e, m') \<Rightarrow>
                       (Inl e, rs1\<lparr>io := io', machine := m', calls := calls rs1 @ [Inl e]\<rparr>)
                   | (Inr result, m') \<Rightarrow>
                       let rs2 = rs1\<lparr>io := io', machine := m', calls := calls rs1 @ [Inr result]\<rparr> in
                       if result \<noteq> Continue then
                         (case get_config (machine rs2) of
                            Inl e \<Rightarrow> (Inl e, rs2)
                          | Inr final_config \<Rightarrow>
                              (Inr result, rs2\<lparr>history := history rs2 @ [final_config]\<rparr>))
                       else run_loop max_steps step_by_step (rs2\<lparr>steps := steps rs2 + 1\<rparr>))))
      else (Inr Loop, rs))"
  by pat_completeness auto
termination
  by (relation "measure (\<lambda>(max_steps, step_by_step, rs). nat (max_steps - steps rs))") auto

declare run_loop.simps [simp del]

text \<open>
  \<open>run\<close> returns the pair of the status and the \<open>history\<close> of the final loop state; the
  final loop state also holds the machine and the console as the call leaves them.
\<close>

definition run :: "int \<Rightarrow> bool \<Rightarrow> TuringMachine \<Rightarrow> console \<Rightarrow> (error + status) \<times> run_state" where
  "run max_steps step_by_step m c =
     (if tape m = None
      then (Inl NotInitialized, \<lparr>machine = m, io = c, history = [], steps = 0, calls = []\<rparr>)
      else run_loop max_steps step_by_step
             \<lparr>machine = m, io = c, history = [], steps = 0, calls = []\<rparr>)"

subsection \<open>create\_on1n\_machine\<close>

definition create_on1n_machine :: TuringMachine where
  "create_on1n_machine =
     (let sts = [''q0'', ''q1'', ''q2'', ''q3'', ''q_accept'', ''q_reject''];
          input_alph = [''0'', ''1''];
          tape_alph = [''0'', ''1'', ''X'', ''Y'', ''_''];
          initial = ''q0'';
          accept = [''q_accept''];
          tm = TuringMachine_init sts input_alph tape_alph initial accept ''_'';
          tm = add_transition ''q0'' ''_'' ''q3'' ''_'' ''R'' tm;
          tm = add_transition ''q0'' ''0'' ''q1'' ''X'' ''R'' tm;
          tm = add_transition ''q0'' ''1'' ''q_reject'' ''1'' ''N'' tm;
          tm = add_transition ''q0'' ''X'' ''q0'' ''X'' ''R'' tm;
          tm = add_transition ''q0'' ''Y'' ''q3'' ''Y'' ''R'' tm;
          tm = add_transition ''q1'' ''0'' ''q1'' ''0'' ''R'' tm;
          tm = add_transition ''q1'' ''1'' ''q2'' ''Y'' ''L'' tm;
          tm = add_transition ''q1'' ''X'' ''q1'' ''X'' ''R'' tm;
          tm = add_transition ''q1'' ''Y'' ''q1'' ''Y'' ''R'' tm;
          tm = add_transition ''q1'' ''_'' ''q_reject'' ''_'' ''N'' tm;
          tm = add_transition ''q2'' ''_'' ''q0'' ''_'' ''R'' tm;
          tm = add_transition ''q2'' ''0'' ''q2'' ''0'' ''L'' tm;
          tm = add_transition ''q2'' ''1'' ''q2'' ''1'' ''L'' tm;
          tm = add_transition ''q2'' ''X'' ''q2'' ''X'' ''L'' tm;
          tm = add_transition ''q2'' ''Y'' ''q2'' ''Y'' ''L'' tm;
          tm = add_transition ''q3'' ''X'' ''q3'' ''X'' ''R'' tm;
          tm = add_transition ''q3'' ''Y'' ''q3'' ''Y'' ''R'' tm;
          tm = add_transition ''q3'' ''0'' ''q_reject'' ''0'' ''N'' tm;
          tm = add_transition ''q3'' ''1'' ''q_reject'' ''1'' ''N'' tm;
          tm = add_transition ''q3'' ''_'' ''q_accept'' ''_'' ''N'' tm
      in tm)"

section \<open>Auxiliary definitions\<close>

text \<open>
  One iteration of the loop of \<open>run\<close>, for the proofs: \<open>Inl\<close> is what the loop
  returns or raises in this iteration, \<open>Inr\<close> the loop state of the next iteration.
\<close>

definition run_body :: "bool \<Rightarrow> run_state \<Rightarrow> ((error + status) \<times> run_state) + run_state" where
  "run_body step_by_step rs =
     (case get_config (machine rs) of
        Inl e \<Rightarrow> Inl (Inl e, rs)
      | Inr cfg \<Rightarrow>
          let rs1 = rs\<lparr>history := history rs @ [cfg]\<rparr> in
          (case trace step_by_step (steps rs1) cfg (io rs1) of
             (Inl e, io') \<Rightarrow> Inl (Inl e, rs1\<lparr>io := io'\<rparr>)
           | (Inr _, io') \<Rightarrow>
               (case step (machine rs1) of
                  (Inl e, m') \<Rightarrow>
                    Inl (Inl e, rs1\<lparr>io := io', machine := m', calls := calls rs1 @ [Inl e]\<rparr>)
                | (Inr result, m') \<Rightarrow>
                    let rs2 = rs1\<lparr>io := io', machine := m', calls := calls rs1 @ [Inr result]\<rparr> in
                    if result \<noteq> Continue then
                      (case get_config (machine rs2) of
                         Inl e \<Rightarrow> Inl (Inl e, rs2)
                       | Inr final_config \<Rightarrow>
                           Inl (Inr result, rs2\<lparr>history := history rs2 @ [final_config]\<rparr>))
                    else Inr (rs2\<lparr>steps := steps rs2 + 1\<rparr>))))"

text \<open>The machine as one call of \<open>step\<close> leaves it.\<close>

definition step_machine :: "TuringMachine \<Rightarrow> TuringMachine" where
  "step_machine m = snd (step m)"

subsection \<open>The test loop of the main block\<close>

text \<open>
  The body of the loop over \<open>tests\<close>: \<open>tm.load_input(inp)\<close>, then
  \<open>tm.run(step_by_step=False, max_steps=1000)\<close>; \<open>run_tests\<close> is the loop, on the
  one machine that the tests share.
\<close>

definition load_and_run ::
  "string \<Rightarrow> TuringMachine \<Rightarrow> console \<Rightarrow> (error + status) \<times> TuringMachine \<times> console" where
  "load_and_run inp tm c =
     (case load_input inp tm of
        (Inl e, tm') \<Rightarrow> (Inl e, tm', c)
      | (Inr _, tm') \<Rightarrow>
          (case run 1000 False tm' c of (result, rs) \<Rightarrow> (result, machine rs, io rs)))"

fun run_tests ::
  "string list \<Rightarrow> TuringMachine \<Rightarrow> console \<Rightarrow> (error + status) list" where
  "run_tests [] tm c = []"
| "run_tests (inp # rest) tm c =
     (case load_and_run inp tm c of (result, tm', c') \<Rightarrow> result # run_tests rest tm' c')"

subsection \<open>Sequences of calls\<close>

text \<open>
  The methods of \<open>TuringMachine\<close> as values, and the machine and the console that a
  call leaves behind, whether it returns or raises.
\<close>

datatype operation =
    AddTransition state symbol state symbol string
  | LoadInput string
  | Step
  | GetConfig
  | Run int bool

fun apply_operation :: "operation \<Rightarrow> TuringMachine \<times> console \<Rightarrow> TuringMachine \<times> console" where
  "apply_operation (AddTransition q a q' a' d) (m, c) = (add_transition q a q' a' d m, c)"
| "apply_operation (LoadInput s) (m, c) = (snd (load_input s m), c)"
| "apply_operation Step (m, c) = (snd (step m), c)"
| "apply_operation GetConfig (m, c) = (m, c)"
| "apply_operation (Run n b) (m, c) = (machine (snd (run n b m c)), io (snd (run n b m c)))"

subsection \<open>Inputs for the examples\<close>

text \<open>
  The bundled machine after \<open>load_input\<close>, a console with nothing to read, and a
  machine without transitions loaded with \<open>"0"\<close>.
\<close>

definition loaded :: "string \<Rightarrow> TuringMachine" where
  "loaded s = snd (load_input s create_on1n_machine)"

definition quiet :: console where
  "quiet = \<lparr>stdin = [], stdout = []\<rparr>"

definition bare_machine :: TuringMachine where
  "bare_machine = snd (load_input ''0'' (TuringMachine_init [''q0''] [''0''] [''0'', ''_''] ''q0'' [] ''_''))"

section \<open>Lemmas about the operations\<close>

subsection \<open>The loop of run, one iteration at a time\<close>

lemma run_loop_unfold:
  "run_loop max_steps step_by_step rs =
     (if steps rs < max_steps then
        (case run_body step_by_step rs of Inl r \<Rightarrow> r | Inr rs' \<Rightarrow> run_loop max_steps step_by_step rs')
      else (Inr Loop, rs))"
  by (subst run_loop.simps) (simp add: run_body_def Let_def split: sum.splits prod.splits)

lemma run_body_steps: "run_body b rs = Inr rs' \<Longrightarrow> steps rs' = steps rs + 1"
  by (auto simp: run_body_def Let_def split: sum.splits prod.splits if_splits)

lemma run_loop_induct [case_names iter]:
  assumes "\<And>rs. (\<And>rs'. steps rs < n \<Longrightarrow> run_body b rs = Inr rs' \<Longrightarrow> P rs') \<Longrightarrow> P rs"
  shows "P rs"
proof (induction "nat (n - steps rs)" arbitrary: rs rule: less_induct)
  case less
  show ?case
  proof (rule assms)
    fix rs'
    assume "steps rs < n" and "run_body b rs = Inr rs'"
    then have "nat (n - steps rs') < nat (n - steps rs)"
      using run_body_steps [of b rs rs'] by simp
    then show "P rs'" by (rule less)
  qed
qed

subsection \<open>Single calls on a loaded machine\<close>

lemma step_static:
  "step m = (r, m') \<Longrightarrow> accept_states m' = accept_states m \<and> reject_states m' = reject_states m"
  by (auto simp: step_def Let_def split: option.splits if_splits)

lemma step_loaded_ex:
  "tape m \<noteq> None \<Longrightarrow>
     \<exists>st m'. step m = (Inr st, m') \<and> tape m' \<noteq> None \<and> st \<noteq> Loop \<and> (st \<noteq> Continue \<longrightarrow> m' = m)"
  by (auto simp: step_def Let_def split: option.splits)

lemma step_loaded:
  assumes "tape m \<noteq> None"
  obtains st m' where "step m = (Inr st, m')" and "tape m' \<noteq> None" and "st \<noteq> Loop"
    and "st \<noteq> Continue \<Longrightarrow> m' = m"
  using step_loaded_ex [OF assms] by blast

lemma get_config_loaded:
  assumes "tape m \<noteq> None"
  obtains cfg where "get_config m = Inr cfg"
  using assms by (auto simp: get_config_def)

lemma trace_untraced: "trace False k cfg c = (Inr (), c)"
  by (simp add: trace_def)

lemma trace_eof: "stdin c = [] \<Longrightarrow> fst (trace True k cfg c) = Inl EOFError"
  by (simp add: trace_def py_input_def py_print_def)

lemma trace_ack:
  "stdin c \<noteq> [] \<Longrightarrow>
     trace True k cfg c = (Inr (), c\<lparr>stdout := stdout c @ [Paso (k + 1) cfg, Prompt], stdin := tl (stdin c)\<rparr>)"
  by (cases "stdin c") (simp_all add: trace_def py_input_def py_print_def)

lemma run_body_eof:
  "get_config (machine rs) = Inr cfg \<Longrightarrow> trace b (steps rs) cfg (io rs) = (Inl e, c') \<Longrightarrow>
     run_body b rs = Inl (Inl e, rs\<lparr>history := history rs @ [cfg], io := c'\<rparr>)"
  by (simp add: run_body_def)

lemma run_body_halt:
  "get_config (machine rs) = Inr cfg \<Longrightarrow> trace b (steps rs) cfg (io rs) = (Inr u, c') \<Longrightarrow>
   step (machine rs) = (Inr st, m') \<Longrightarrow> st \<noteq> Continue \<Longrightarrow> get_config m' = Inr fc \<Longrightarrow>
     run_body b rs =
       Inl (Inr st, rs\<lparr>history := history rs @ [cfg, fc], io := c', machine := m',
                          calls := calls rs @ [Inr st]\<rparr>)"
  by (simp add: run_body_def)

lemma run_body_continue:
  "get_config (machine rs) = Inr cfg \<Longrightarrow> trace b (steps rs) cfg (io rs) = (Inr u, c') \<Longrightarrow>
   step (machine rs) = (Inr Continue, m') \<Longrightarrow>
     run_body b rs =
       Inr (rs\<lparr>history := history rs @ [cfg], io := c', machine := m',
                 calls := calls rs @ [Inr Continue], steps := steps rs + 1\<rparr>)"
  by (simp add: run_body_def)

lemma run_body_static_Inr:
  "run_body b rs = Inr rs' \<Longrightarrow>
     accept_states (machine rs') = accept_states (machine rs) \<and>
     reject_states (machine rs') = reject_states (machine rs)"
  by (auto simp: run_body_def Let_def split: sum.splits prod.splits if_splits dest: step_static)

lemma run_body_static_Inl:
  "run_body b rs = Inl (r, rs') \<Longrightarrow>
     accept_states (machine rs') = accept_states (machine rs) \<and>
     reject_states (machine rs') = reject_states (machine rs)"
  by (auto simp: run_body_def Let_def split: sum.splits prod.splits if_splits dest: step_static)

subsection \<open>The three outcomes of an iteration\<close>

lemma run_body_cases [consumes 1, case_names eof halt continue]:
  assumes "tape (machine rs) \<noteq> None"
  obtains
    (eof) cfg c' where "b" and "stdin (io rs) = []" and "get_config (machine rs) = Inr cfg"
      and "run_body b rs = Inl (Inl EOFError, rs\<lparr>history := history rs @ [cfg], io := c'\<rparr>)"
  | (halt) cfg st c' where "b \<longrightarrow> stdin (io rs) \<noteq> []" and "get_config (machine rs) = Inr cfg"
      and "trace b (steps rs) cfg (io rs) = (Inr (), c')"
      and "step (machine rs) = (Inr st, machine rs)" and "st \<noteq> Continue" and "st \<noteq> Loop"
      and "run_body b rs =
             Inl (Inr st, rs\<lparr>history := history rs @ [cfg, cfg], io := c',
                                calls := calls rs @ [Inr st]\<rparr>)"
  | (continue) cfg c' m' where "b \<longrightarrow> stdin (io rs) \<noteq> []"
      and "stdin c' = (if b then tl (stdin (io rs)) else stdin (io rs))"
      and "get_config (machine rs) = Inr cfg"
      and "trace b (steps rs) cfg (io rs) = (Inr (), c')"
      and "step (machine rs) = (Inr Continue, m')" and "tape m' \<noteq> None"
      and "run_body b rs =
             Inr (rs\<lparr>history := history rs @ [cfg], io := c', machine := m',
                       calls := calls rs @ [Inr Continue], steps := steps rs + 1\<rparr>)"
proof -
  obtain cfg where cfg: "get_config (machine rs) = Inr cfg"
    using get_config_loaded [OF assms] .
  obtain st m' where st: "step (machine rs) = (Inr st, m')" "tape m' \<noteq> None" "st \<noteq> Loop"
      "st \<noteq> Continue \<longrightarrow> m' = machine rs"
    using step_loaded_ex [OF assms] by blast
  show thesis
  proof (cases "b \<and> stdin (io rs) = []")
    case True
    obtain x c' where tr: "trace b (steps rs) cfg (io rs) = (x, c')"
      by (cases "trace b (steps rs) cfg (io rs)")
    with True have "x = Inl EOFError"
      using trace_eof [of "io rs" "steps rs" cfg] by simp
    with tr cfg have "run_body b rs = Inl (Inl EOFError, rs\<lparr>history := history rs @ [cfg], io := c'\<rparr>)"
      by (simp add: run_body_eof)
    with True cfg show thesis by (intro eof) simp_all
  next
    case False
    define c' where "c' = snd (trace b (steps rs) cfg (io rs))"
    have tr: "trace b (steps rs) cfg (io rs) = (Inr (), c')"
      and c': "stdin c' = (if b then tl (stdin (io rs)) else stdin (io rs))"
      using False by (cases b; simp add: c'_def trace_untraced trace_ack)+
    have ne: "b \<longrightarrow> stdin (io rs) \<noteq> []" using False by simp
    show thesis
    proof (cases "st = Continue")
      case True
      with st cfg tr have "run_body b rs =
             Inr (rs\<lparr>history := history rs @ [cfg], io := c', machine := m',
                       calls := calls rs @ [Inr Continue], steps := steps rs + 1\<rparr>)"
        by (simp add: run_body_continue)
      with True st cfg tr c' ne show thesis by (intro continue) simp_all
    next
      case neq: False
      with st have m': "m' = machine rs" by simp
      with neq st cfg tr have "run_body b rs =
             Inl (Inr st, rs\<lparr>history := history rs @ [cfg, cfg], io := c', machine := machine rs,
                                calls := calls rs @ [Inr st]\<rparr>)"
        using run_body_halt [of rs cfg b "()" c' st "machine rs" cfg] by simp
      with neq st cfg tr m' ne show thesis by (intro halt) simp_all
    qed
  qed
qed

lemma run_loop_stop: "\<not> steps rs < n \<Longrightarrow> run_loop n b rs = (Inr Loop, rs)"
  by (simp add: run_loop_unfold [of n b rs])

lemma run_loop_Inl: "steps rs < n \<Longrightarrow> run_body b rs = Inl r \<Longrightarrow> run_loop n b rs = r"
  by (simp add: run_loop_unfold [of n b rs])

lemma run_loop_Inr:
  "steps rs < n \<Longrightarrow> run_body b rs = Inr rs' \<Longrightarrow> run_loop n b rs = run_loop n b rs'"
  by (simp add: run_loop_unfold [of n b rs])

subsection \<open>What the loop returns\<close>

lemma calls_bound:
  "tape (machine rs) \<noteq> None \<Longrightarrow>
     length (calls (snd (run_loop n b rs))) \<le> length (calls rs) + nat (n - steps rs)"
proof (induction rs rule: run_loop_induct [where n = n and b = b])
  case (iter rs)
  show ?case
  proof (cases "steps rs < n")
    case False
    then show ?thesis by (simp add: run_loop_stop)
  next
    case True
    from iter.prems show ?thesis
    proof (cases rule: run_body_cases [where b = b])
      case (eof cfg c')
      with True show ?thesis by (simp add: run_loop_Inl)
    next
      case (halt cfg st c')
      with True show ?thesis by (simp add: run_loop_Inl)
    next
      case (continue cfg c' m')
      have "length (calls (snd (run_loop n b rs))) \<le> length (calls rs) + 1 + nat (n - (steps rs + 1))"
        using iter.IH [OF True continue(7)] continue(6) True
        by (simp add: run_loop_Inr [OF True continue(7)])
      with True show ?thesis by simp
    qed
  qed
qed

lemma configs_shift:
  "map (\<lambda>i. get_config ((step_machine ^^ i) m)) [0..<Suc k] =
     get_config m # map (\<lambda>i. get_config ((step_machine ^^ i) (step_machine m))) [0..<k]"
  by (simp only: map_upt_Suc funpow_0 funpow_Suc_right o_apply)

lemma loop_exhausted:
  "tape (machine rs) \<noteq> None \<Longrightarrow> fst (run_loop n b rs) = Inr Loop \<Longrightarrow>
     calls (snd (run_loop n b rs)) = calls rs @ replicate (nat (n - steps rs)) (Inr Continue) \<and>
     map Inr (history (snd (run_loop n b rs))) =
       map Inr (history rs) @
       map (\<lambda>i. get_config ((step_machine ^^ i) (machine rs))) [0..<nat (n - steps rs)] \<and>
     machine (snd (run_loop n b rs)) = (step_machine ^^ nat (n - steps rs)) (machine rs)"
proof (induction rs rule: run_loop_induct [where n = n and b = b])
  case (iter rs)
  show ?case
  proof (cases "steps rs < n")
    case False
    then show ?thesis by (simp add: run_loop_stop)
  next
    case True
    from iter.prems(1) show ?thesis
    proof (cases rule: run_body_cases [where b = b])
      case (eof cfg c')
      with True iter.prems(2) show ?thesis by (simp add: run_loop_Inl)
    next
      case (halt cfg st c')
      with True iter.prems(2) show ?thesis by (simp add: run_loop_Inl)
    next
      case (continue cfg c' m')
      let ?rs' = "rs\<lparr>history := history rs @ [cfg], io := c', machine := m',
                       calls := calls rs @ [Inr Continue], steps := steps rs + 1\<rparr>"
      have eq: "run_loop n b rs = run_loop n b ?rs'"
        by (rule run_loop_Inr [OF True continue(7)])
      have m': "m' = step_machine (machine rs)"
        using continue(5) by (simp add: step_machine_def)
      have k: "nat (n - steps rs) = Suc (nat (n - (steps rs + 1)))"
        using True by simp
      have IH: "calls (snd (run_loop n b ?rs')) =
           calls ?rs' @ replicate (nat (n - steps ?rs')) (Inr Continue) \<and>
         map Inr (history (snd (run_loop n b ?rs'))) =
           map Inr (history ?rs') @
           map (\<lambda>i. get_config ((step_machine ^^ i) (machine ?rs'))) [0..<nat (n - steps ?rs')] \<and>
         machine (snd (run_loop n b ?rs')) = (step_machine ^^ nat (n - steps ?rs')) (machine ?rs')"
        using iter.IH [OF True continue(7)] continue(6) iter.prems(2) eq by simp
      show ?thesis
        unfolding eq k configs_shift
        using IH continue(3) by (simp add: m' funpow_swap1)
    qed
  qed
qed

lemma loop_halted:
  "tape (machine rs) \<noteq> None \<Longrightarrow> fst (run_loop n b rs) = Inr st \<Longrightarrow> st \<noteq> Loop \<Longrightarrow>
     \<exists>hs cfg. history (snd (run_loop n b rs)) = history rs @ hs @ [cfg, cfg] \<and>
       calls (snd (run_loop n b rs)) = calls rs @ replicate (length hs) (Inr Continue) @ [Inr st] \<and>
       get_config (machine (snd (run_loop n b rs))) = Inr cfg \<and>
       st \<noteq> Continue"
proof (induction rs rule: run_loop_induct [where n = n and b = b])
  case (iter rs)
  show ?case
  proof (cases "steps rs < n")
    case False
    with iter.prems show ?thesis by (simp add: run_loop_stop)
  next
    case True
    from iter.prems(1) show ?thesis
    proof (cases rule: run_body_cases [where b = b])
      case (eof cfg c')
      with True iter.prems(2) show ?thesis by (simp add: run_loop_Inl)
    next
      case (halt cfg st' c')
      have r: "run_loop n b rs =
          (Inr st', rs\<lparr>history := history rs @ [cfg, cfg], io := c', calls := calls rs @ [Inr st']\<rparr>)"
        by (rule run_loop_Inl [OF True halt(7)])
      with iter.prems(2) have "st' = st" by simp
      with r halt(2,5) show ?thesis
        by (intro exI [of _ "[]"] exI [of _ cfg]) simp
    next
      case (continue cfg c' m')
      let ?rs' = "rs\<lparr>history := history rs @ [cfg], io := c', machine := m',
                       calls := calls rs @ [Inr Continue], steps := steps rs + 1\<rparr>"
      have eq: "run_loop n b rs = run_loop n b ?rs'"
        by (rule run_loop_Inr [OF True continue(7)])
      obtain hs fc where IH:
        "history (snd (run_loop n b ?rs')) = history ?rs' @ hs @ [fc, fc]"
        "calls (snd (run_loop n b ?rs')) = calls ?rs' @ replicate (length hs) (Inr Continue) @ [Inr st]"
        "get_config (machine (snd (run_loop n b ?rs'))) = Inr fc"
        "st \<noteq> Continue"
        using iter.IH [OF True continue(7)] continue(6) iter.prems(2,3) eq by auto
      show ?thesis
        unfolding eq using IH
        by (intro exI [of _ "cfg # hs"] exI [of _ fc]) simp
    qed
  qed
qed

lemma loop_raised:
  "tape (machine rs) \<noteq> None \<Longrightarrow> fst (run_loop n b rs) = Inl e \<Longrightarrow>
     e = EOFError \<and> b \<and> length (stdin (io rs)) < nat (n - steps rs)"
proof (induction rs rule: run_loop_induct [where n = n and b = b])
  case (iter rs)
  show ?case
  proof (cases "steps rs < n")
    case False
    with iter.prems show ?thesis by (simp add: run_loop_stop)
  next
    case True
    from iter.prems(1) show ?thesis
    proof (cases rule: run_body_cases [where b = b])
      case (eof cfg c')
      with True iter.prems(2) show ?thesis by (simp add: run_loop_Inl)
    next
      case (halt cfg st' c')
      with True iter.prems(2) show ?thesis by (simp add: run_loop_Inl)
    next
      case (continue cfg c' m')
      let ?rs' = "rs\<lparr>history := history rs @ [cfg], io := c', machine := m',
                       calls := calls rs @ [Inr Continue], steps := steps rs + 1\<rparr>"
      have eq: "run_loop n b rs = run_loop n b ?rs'"
        by (rule run_loop_Inr [OF True continue(7)])
      have "e = EOFError \<and> b \<and> length (stdin (io ?rs')) < nat (n - steps ?rs')"
        using iter.IH [OF True continue(7)] continue(6) iter.prems(2) eq by simp
      with continue(1,2) True show ?thesis by (cases "stdin (io rs)") auto
    qed
  qed
qed

lemma traced_untraced:
  assumes "tape (machine rs) \<noteq> None"
    and "machine ru = machine rs" and "history ru = history rs"
    and "steps ru = steps rs" and "calls ru = calls rs"
    and "fst (run_loop n True rs) \<noteq> Inl EOFError"
  shows "fst (run_loop n True rs) = fst (run_loop n False ru) \<and>
         machine (snd (run_loop n True rs)) = machine (snd (run_loop n False ru)) \<and>
         history (snd (run_loop n True rs)) = history (snd (run_loop n False ru)) \<and>
         steps (snd (run_loop n True rs)) = steps (snd (run_loop n False ru)) \<and>
         calls (snd (run_loop n True rs)) = calls (snd (run_loop n False ru))"
  using assms
proof (induction rs arbitrary: ru rule: run_loop_induct [where n = n and b = True])
  case (iter rs)
  note same = iter.prems(2-5)
  show ?case
  proof (cases "steps rs < n")
    case False
    with same show ?thesis by (simp add: run_loop_stop)
  next
    case True
    then have Tu: "steps ru < n" using same by simp
    from iter.prems(1) show ?thesis
    proof (cases rule: run_body_cases [where b = True])
      case (eof cfg c')
      with True iter.prems(6) show ?thesis by (simp add: run_loop_Inl)
    next
      case (halt cfg st c')
      have "run_body False ru =
          Inl (Inr st, ru\<lparr>history := history ru @ [cfg, cfg], io := io ru, machine := machine rs,
                             calls := calls ru @ [Inr st]\<rparr>)"
        using halt(2,4,5) same
        by (intro run_body_halt [where u = "()"]) (simp_all add: trace_untraced)
      then show ?thesis
        using same by (simp add: run_loop_Inl [OF True halt(7)] run_loop_Inl [OF Tu])
    next
      case (continue cfg c' m')
      let ?rs' = "rs\<lparr>history := history rs @ [cfg], io := c', machine := m',
                       calls := calls rs @ [Inr Continue], steps := steps rs + 1\<rparr>"
      let ?ru' = "ru\<lparr>history := history ru @ [cfg], io := io ru, machine := m',
                       calls := calls ru @ [Inr Continue], steps := steps ru + 1\<rparr>"
      have eq: "run_loop n True rs = run_loop n True ?rs'"
        by (rule run_loop_Inr [OF True continue(7)])
      have "run_body False ru = Inr ?ru'"
        using continue(3,5) same
        by (intro run_body_continue [where u = "()"]) (simp_all add: trace_untraced)
      then have equ: "run_loop n False ru = run_loop n False ?ru'"
        by (rule run_loop_Inr [OF Tu])
      show ?thesis
        unfolding eq equ
        using iter.prems(6) continue(6) same eq
        by (intro iter.IH [OF True continue(7)]) simp_all
    qed
  qed
qed

lemma run_loop_static:
  "accept_states (machine (snd (run_loop n b rs))) = accept_states (machine rs) \<and>
   reject_states (machine (snd (run_loop n b rs))) = reject_states (machine rs)"
proof (induction rs rule: run_loop_induct [where n = n and b = b])
  case (iter rs)
  show ?case
  proof (cases "steps rs < n")
    case False
    then show ?thesis by (simp add: run_loop_stop)
  next
    case True
    show ?thesis
    proof (cases "run_body b rs")
      case (Inl r)
      then have "run_body b rs = Inl (fst r, snd r)" by simp
      from run_body_static_Inl [OF this] show ?thesis
        by (simp add: run_loop_Inl [OF True Inl])
    next
      case (Inr rs')
      from run_body_static_Inr [OF Inr] iter [OF True Inr] show ?thesis
        by (simp add: run_loop_Inr [OF True Inr])
    qed
  qed
qed

subsection \<open>The seeded tape\<close>

lemma enumerate_into_lookup:
  "map_of (enumerate_into k s c) i =
     (if k \<le> i \<and> i < k + int (length s) then Some [s ! nat (i - k)] else map_of c i)"
proof (induction s arbitrary: k c)
  case Nil
  then show ?case by auto
next
  case (Cons x s)
  have "i \<noteq> k \<Longrightarrow> k \<le> i \<Longrightarrow> nat (i - k) = Suc (nat (i - (k + 1)))" by simp
  then show ?case
    by (auto simp: Cons update_conv')
qed

lemma Tape_init_lookup:
  "map_of (content (Tape_init s b)) i =
     (if 0 \<le> i \<and> i < int (length s) then Some [s ! nat i] else None)"
  by (cases s) (simp_all add: Tape_init_def enumerate_into_lookup del: enumerate_into.simps)

subsection \<open>The entry of run\<close>

lemma run_unloaded: "tape m = None \<Longrightarrow> fst (run n b m c) = Inl NotInitialized"
  by (simp add: run_def)

lemma step_fresh: "tape m = None \<Longrightarrow> current_state m = None \<Longrightarrow> step m = (Inl AttributeError, m)"
  by (simp add: step_def state_in_def)

lemma run_loaded:
  "tape m \<noteq> None \<Longrightarrow>
     run n b m c = run_loop n b \<lparr>machine = m, io = c, history = [], steps = 0, calls = []\<rparr>"
  by (auto simp: run_def)

lemma run_acknowledged:
  "nat max_steps \<le> length (stdin c) \<Longrightarrow> fst (run max_steps True m c) \<noteq> Inl EOFError"
proof (cases "tape m = None")
  case True
  then show ?thesis by (simp add: run_def)
next
  case False
  assume acks: "nat max_steps \<le> length (stdin c)"
  let ?rs = "\<lparr>machine = m, io = c, history = [], steps = 0, calls = []\<rparr>"
  have "fst (run_loop max_steps True ?rs) \<noteq> Inl EOFError"
  proof
    assume "fst (run_loop max_steps True ?rs) = Inl EOFError"
    from loop_raised [OF _ this] False acks show False by simp
  qed
  with False show ?thesis by (simp add: run_loaded)
qed

text \<open>
  Trace mode reads the console once per iteration: a console with a line for each of
  \<open>max_steps\<close> prompts never ends the run (\<open>run_acknowledged\<close>), and an empty one
  ends it at the first prompt with \<open>EOFError\<close>.
\<close>

lemma run_traced_eof:
  assumes "tape m \<noteq> None" and "0 < max_steps" and "stdin c = []"
  shows "fst (run max_steps True m c) = Inl EOFError"
proof -
  let ?rs = "\<lparr>machine = m, io = c, history = [], steps = 0, calls = []\<rparr>"
  have t: "tape (machine ?rs) \<noteq> None" using assms(1) by simp
  have lt: "steps ?rs < max_steps" using assms(2) by simp
  from t have "fst (run_loop max_steps True ?rs) = Inl EOFError"
  proof (cases rule: run_body_cases [where b = True])
    case (eof cfg c')
    from run_loop_Inl [OF lt eof(4)] show ?thesis by simp
  next
    case (halt cfg st c')
    with assms(3) show ?thesis by simp
  next
    case (continue cfg c' m')
    with assms(3) show ?thesis by simp
  qed
  then show ?thesis by (simp add: run_loaded [OF assms(1)])
qed

subsection \<open>The accept and reject sets never change\<close>

lemma load_input_static:
  "accept_states (snd (load_input s m)) = accept_states m \<and>
   reject_states (snd (load_input s m)) = reject_states m"
  by (simp add: load_input_def)

lemma run_static:
  "accept_states (machine (snd (run n b m c))) = accept_states m \<and>
   reject_states (machine (snd (run n b m c))) = reject_states m"
  using run_loop_static [of n b "\<lparr>machine = m, io = c, history = [], steps = 0, calls = []\<rparr>"]
  by (simp add: run_def)

lemma apply_operation_static:
  "accept_states (fst (apply_operation x mc)) = accept_states (fst mc) \<and>
   reject_states (fst (apply_operation x mc)) = reject_states (fst mc)"
proof (cases mc)
  case (Pair m c)
  show ?thesis
  proof (cases x)
    case (AddTransition q a q' a' d)
    with Pair show ?thesis by (simp add: add_transition_def)
  next
    case (LoadInput s)
    with Pair show ?thesis by (simp add: load_input_static)
  next
    case Step
    obtain r m' where "step m = (r, m')" by (cases "step m")
    with Pair Step step_static [of m r m'] show ?thesis by simp
  next
    case GetConfig
    with Pair show ?thesis by simp
  next
    case (Run n b)
    with Pair show ?thesis by (simp add: run_static)
  qed
qed

lemma apply_operations_static:
  "accept_states (fst (fold apply_operation ops mc)) = accept_states (fst mc) \<and>
   reject_states (fst (fold apply_operation ops mc)) = reject_states (fst mc)"
  by (induction ops arbitrary: mc) (simp_all add: apply_operation_static)

section \<open>The claims\<close>

text \<open>
  Claim C1. On the machine of \<open>create_on1n_machine\<close>, \<open>load_input\<close> followed by
  \<open>run\<close> with a budget of 1000 steps returns \<open>accept\<close> for the inputs \<open>""\<close>,
  \<open>"01"\<close> and \<open>"0011"\<close>, and \<open>reject\<close> for \<open>"001"\<close>, \<open>"1100"\<close> and
  \<open>"0101"\<close>: on a fresh machine for each input, and on the one shared machine of the
  test loop.
\<close>

theorem on1n_examples:
  "fst (load_and_run '''' create_on1n_machine c) = Inr Accept \<and>
   fst (load_and_run ''01'' create_on1n_machine c) = Inr Accept \<and>
   fst (load_and_run ''0011'' create_on1n_machine c) = Inr Accept \<and>
   fst (load_and_run ''001'' create_on1n_machine c) = Inr Reject \<and>
   fst (load_and_run ''1100'' create_on1n_machine c) = Inr Reject \<and>
   fst (load_and_run ''0101'' create_on1n_machine c) = Inr Reject \<and>
   run_tests ['''', ''01'', ''0011'', ''001'', ''1100'', ''0101''] create_on1n_machine c =
     [Inr Accept, Inr Accept, Inr Accept, Inr Reject, Inr Reject, Inr Reject]"
  by code_simp

text \<open>
  The blank symbol is outside the input alphabet of the bundled machine, and
  \<open>load_input\<close> accepts a string that contains it.
\<close>

theorem load_input_blank_counterexample:
  "fst (load_input ''_'' create_on1n_machine) = Inr () \<and>
   [CHR ''_''] \<notin> set (input_alphabet create_on1n_machine)"
  by code_simp

text \<open>
  Claim C2, amended. \<open>load_input\<close> raises the invalid-symbol error if and only if some
  character of the string is neither in the input alphabet nor the blank symbol, and then
  leaves the machine as it was. Otherwise it returns normally, replaces the tape by one
  that holds the characters of the string at the positions \<open>0..len-1\<close> and nothing
  else, with the head at 0 and the machine's blank, and sets the current state to the
  start state; nothing else of the machine changes.
\<close>

theorem load_input_validation:
  "(fst (load_input s m) = Inl InvalidInputSymbol \<longleftrightarrow>
      (\<exists>ch \<in> set s. [ch] \<notin> set (input_alphabet m) \<and> [ch] \<noteq> tm_blank m)) \<and>
   (fst (load_input s m) = Inl InvalidInputSymbol \<longrightarrow> snd (load_input s m) = m) \<and>
   (fst (load_input s m) \<noteq> Inl InvalidInputSymbol \<longrightarrow>
      fst (load_input s m) = Inr () \<and>
      snd (load_input s m) =
        m\<lparr>tape := Some (Tape_init s (tm_blank m)), current_state := Some (initial_state m)\<rparr> \<and>
      head (Tape_init s (tm_blank m)) = 0 \<and>
      blank (Tape_init s (tm_blank m)) = tm_blank m \<and>
      (\<forall>i. map_of (content (Tape_init s (tm_blank m))) i =
            (if 0 \<le> i \<and> i < int (length s) then Some [s ! nat i] else None)))"
  by (auto simp: load_input_def Tape_init_lookup) (simp_all add: Tape_init_def)

theorem load_input_validation_witness:
  "fst (load_input ''0_1'' create_on1n_machine) \<noteq> Inl InvalidInputSymbol \<and>
   fst (load_input ''0_1'' create_on1n_machine) = Inr () \<and>
   snd (load_input ''0_1'' create_on1n_machine) =
     create_on1n_machine\<lparr>tape := Some (Tape_init ''0_1'' (tm_blank create_on1n_machine)),
                          current_state := Some (initial_state create_on1n_machine)\<rparr> \<and>
   (fst (load_input ''021'' create_on1n_machine) = Inl InvalidInputSymbol \<longleftrightarrow>
      (\<exists>ch \<in> set ''021''. [ch] \<notin> set (input_alphabet create_on1n_machine) \<and>
         [ch] \<noteq> tm_blank create_on1n_machine)) \<and>
   fst (load_input ''021'' create_on1n_machine) = Inl InvalidInputSymbol \<and>
   snd (load_input ''021'' create_on1n_machine) = create_on1n_machine"
proof -
  have ok: "fst (load_input ''0_1'' create_on1n_machine) \<noteq> Inl InvalidInputSymbol" by code_simp
  have bad: "fst (load_input ''021'' create_on1n_machine) = Inl InvalidInputSymbol" by code_simp
  from load_input_validation [of "''0_1''" create_on1n_machine]
    load_input_validation [of "''021''" create_on1n_machine] ok bad
  show ?thesis by blast
qed

text \<open>
  In trace mode the loop can end without a status: with two lines on the console and a
  budget of three, both calls of \<open>step\<close> return \<open>continue\<close>, and the third prompt
  raises \<open>EOFError\<close> instead of \<open>run\<close> returning \<open>loop\<close>.
\<close>

theorem run_step_budget_eof_counterexample:
  "tape (loaded ''0011'') \<noteq> None \<and>
   calls (snd (run 3 True (loaded ''0011'') \<lparr>stdin = ['''', ''''], stdout = []\<rparr>)) =
     [Inr Continue, Inr Continue] \<and>
   fst (run 3 True (loaded ''0011'') \<lparr>stdin = ['''', ''''], stdout = []\<rparr>) = Inl EOFError"
  by code_simp

text \<open>
  Claim C3, amended. On a machine with a loaded tape, \<open>run\<close> calls \<open>step\<close> at most
  \<open>max_steps\<close> times (not at all for a budget below 1). If none of these calls returns
  anything but \<open>continue\<close>, and in trace mode the console holds a line for each of the
  \<open>max_steps\<close> prompts, then \<open>run\<close> returns \<open>loop\<close> after exactly \<open>max_steps\<close>
  calls, and the history is the list of the configurations recorded before each call.
\<close>

theorem run_step_budget:
  assumes "tape m \<noteq> None"
  shows "length (calls (snd (run max_steps step_by_step m c))) \<le> nat max_steps \<and>
    ((step_by_step \<longrightarrow> nat max_steps \<le> length (stdin c)) \<longrightarrow>
     (\<forall>x \<in> set (calls (snd (run max_steps step_by_step m c))). x = Inr Continue) \<longrightarrow>
       fst (run max_steps step_by_step m c) = Inr Loop \<and>
       calls (snd (run max_steps step_by_step m c)) = replicate (nat max_steps) (Inr Continue) \<and>
       map Inr (history (snd (run max_steps step_by_step m c))) =
         map (\<lambda>i. get_config ((step_machine ^^ i) m)) [0..<nat max_steps])"
proof -
  let ?rs = "\<lparr>machine = m, io = c, history = [], steps = 0, calls = []\<rparr>"
  let ?r = "run_loop max_steps step_by_step ?rs"
  have run: "run max_steps step_by_step m c = ?r"
    by (rule run_loaded [OF assms])
  have t: "tape (machine ?rs) \<noteq> None" using assms by simp
  have bound: "length (calls (snd ?r)) \<le> nat max_steps"
    using calls_bound [OF t, of max_steps step_by_step] by simp
  have rest: "fst ?r = Inr Loop \<and>
       calls (snd ?r) = replicate (nat max_steps) (Inr Continue) \<and>
       map Inr (history (snd ?r)) = map (\<lambda>i. get_config ((step_machine ^^ i) m)) [0..<nat max_steps]"
    if acks: "step_by_step \<longrightarrow> nat max_steps \<le> length (stdin c)"
      and cont: "\<forall>x \<in> set (calls (snd ?r)). x = Inr Continue"
  proof (cases "fst ?r")
    case (Inl e)
    from loop_raised [OF t Inl] acks show ?thesis by simp
  next
    case (Inr st)
    show ?thesis
    proof (cases "st = Loop")
      case True
      with Inr have "fst ?r = Inr Loop" by simp
      from loop_exhausted [OF t this] this show ?thesis by simp
    next
      case False
      from loop_halted [OF t Inr False] obtain hs :: "config list" where
        "calls (snd ?r) = calls ?rs @ replicate (length hs) (Inr Continue) @ [Inr st]"
        and "st \<noteq> Continue"
        by blast
      with cont show ?thesis by simp
    qed
  qed
  show ?thesis unfolding run using bound rest by blast
qed

theorem run_step_budget_witness:
  "tape (loaded ''0011'') \<noteq> None \<and>
   nat 3 \<le> length (stdin \<lparr>stdin = ['''', '''', ''''], stdout = []\<rparr>) \<and>
   calls (snd (run 3 True (loaded ''0011'') \<lparr>stdin = ['''', '''', ''''], stdout = []\<rparr>)) =
     [Inr Continue, Inr Continue, Inr Continue] \<and>
   length (calls (snd (run 3 True (loaded ''0011'') \<lparr>stdin = ['''', '''', ''''], stdout = []\<rparr>)))
     \<le> nat 3 \<and>
   fst (run 3 True (loaded ''0011'') \<lparr>stdin = ['''', '''', ''''], stdout = []\<rparr>) = Inr Loop \<and>
   map Inr (history (snd (run 3 True (loaded ''0011'') \<lparr>stdin = ['''', '''', ''''], stdout = []\<rparr>))) =
     map (\<lambda>i. get_config ((step_machine ^^ i) (loaded ''0011''))) [0..<nat 3] \<and>
   length (history (snd (run 3 True (loaded ''0011'') \<lparr>stdin = ['''', '''', ''''], stdout = []\<rparr>))) = 3"
proof -
  let ?c = "\<lparr>stdin = ['''', '''', ''''], stdout = []\<rparr>"
  have t: "tape (loaded ''0011'') \<noteq> None" by code_simp
  have n: "nat 3 \<le> length (stdin ?c)" by simp
  then have a: "True \<longrightarrow> nat 3 \<le> length (stdin ?c)" by simp
  have k: "calls (snd (run 3 True (loaded ''0011'') ?c)) = [Inr Continue, Inr Continue, Inr Continue]"
    by code_simp
  then have c: "\<forall>x \<in> set (calls (snd (run 3 True (loaded ''0011'') ?c))). x = Inr Continue"
    by simp
  have len: "length (history (snd (run 3 True (loaded ''0011'') ?c))) = 3" by code_simp
  from run_step_budget [OF t, of 3 True ?c] a c k len t n show ?thesis by blast
qed

text \<open>
  Claim C4. When the current state is neither accepting nor rejecting and the table has
  no entry for the current state and the symbol under the head, \<open>step\<close> returns
  \<open>reject\<close> as a value and leaves the whole machine, so the tape, the head and the
  current state, unchanged.
\<close>

theorem step_no_transition:
  assumes "tape m = Some t"
    and "\<not> state_in (current_state m) (set (accept_states m))"
    and "\<not> state_in (current_state m) (reject_states m)"
    and "TransitionFunction_get (transition_function m) (current_state m) (Tape_read t) = None"
  shows "step m = (Inr Reject, m)"
  using assms by (simp add: step_def)

theorem step_no_transition_witness:
  "tape bare_machine = Some (Tape_init ''0'' ''_'') \<and>
   \<not> state_in (current_state bare_machine) (set (accept_states bare_machine)) \<and>
   \<not> state_in (current_state bare_machine) (reject_states bare_machine) \<and>
   TransitionFunction_get (transition_function bare_machine) (current_state bare_machine)
     (Tape_read (Tape_init ''0'' ''_'')) = None \<and>
   step bare_machine = (Inr Reject, bare_machine)"
proof -
  have t: "tape bare_machine = Some (Tape_init ''0'' ''_'')" by code_simp
  have a: "\<not> state_in (current_state bare_machine) (set (accept_states bare_machine))" by code_simp
  have r: "\<not> state_in (current_state bare_machine) (reject_states bare_machine)" by code_simp
  have n: "TransitionFunction_get (transition_function bare_machine) (current_state bare_machine)
     (Tape_read (Tape_init ''0'' ''_'')) = None" by code_simp
  from step_no_transition [OF t a r n] t a r n show ?thesis by blast
qed

text \<open>
  Claim C5. When the current state is in the accept set, \<open>step\<close> returns \<open>accept\<close>
  and leaves the whole machine unchanged: tape contents, head position and current state
  are as before the call.
\<close>

theorem step_accepting:
  assumes "state_in (current_state m) (set (accept_states m))"
  shows "step m = (Inr Accept, m)"
  using assms by (simp add: step_def)

theorem step_accepting_witness:
  "state_in (current_state (machine (snd (run 1000 False (loaded '''') quiet))))
     (set (accept_states (machine (snd (run 1000 False (loaded '''') quiet))))) \<and>
   step (machine (snd (run 1000 False (loaded '''') quiet))) =
     (Inr Accept, machine (snd (run 1000 False (loaded '''') quiet)))"
proof -
  have h: "state_in (current_state (machine (snd (run 1000 False (loaded '''') quiet))))
     (set (accept_states (machine (snd (run 1000 False (loaded '''') quiet)))))" by code_simp
  from step_accepting [OF h] h show ?thesis by blast
qed

text \<open>
  Claim C6. On the bundled machine before any \<open>load_input\<close>, \<open>run\<close> raises the
  not-initialized error, while \<open>step\<close> raises Python's \<open>AttributeError\<close> for the
  missing tape and leaves the machine unchanged.
\<close>

theorem step_unloaded:
  "fst (step create_on1n_machine) = Inl AttributeError \<and>
   snd (step create_on1n_machine) = create_on1n_machine \<and>
   fst (run 1000 False create_on1n_machine c) = Inl NotInitialized"
  by code_simp

text \<open>
  With nothing to read on the console, the traced run of the bundled machine on the
  empty input ends at its first prompt with \<open>EOFError\<close>, while the untraced run
  returns \<open>accept\<close>.
\<close>

theorem trace_mode_eof_counterexample:
  "tape (loaded '''') \<noteq> None \<and>
   fst (run 1000 True (loaded '''') quiet) = Inl EOFError \<and>
   fst (run 1000 False (loaded '''') quiet) = Inr Accept"
  by code_simp

text \<open>
  Claim C7, amended. From the same machine and with the same budget, \<open>run\<close> in trace
  mode and \<open>run\<close> without it return the same status and the same history, leave the
  same machine behind and make the same calls of \<open>step\<close>, whenever the traced run is
  not cut short by the end of the console input. By \<open>run_acknowledged\<close>, a console
  with a line for each of \<open>max_steps\<close> prompts is enough for that.
\<close>

theorem trace_mode_transparent:
  assumes "fst (run max_steps True m c) \<noteq> Inl EOFError"
  shows "fst (run max_steps True m c) = fst (run max_steps False m c') \<and>
         history (snd (run max_steps True m c)) = history (snd (run max_steps False m c')) \<and>
         machine (snd (run max_steps True m c)) = machine (snd (run max_steps False m c')) \<and>
         calls (snd (run max_steps True m c)) = calls (snd (run max_steps False m c'))"
proof (cases "tape m = None")
  case True
  then show ?thesis by (simp add: run_def)
next
  case False
  let ?rs = "\<lparr>machine = m, io = c, history = [], steps = 0, calls = []\<rparr>"
  let ?ru = "\<lparr>machine = m, io = c', history = [], steps = 0, calls = []\<rparr>"
  have "fst (run_loop max_steps True ?rs) \<noteq> Inl EOFError"
    using assms False by (simp add: run_loaded)
  then show ?thesis
    using traced_untraced [of ?rs ?ru max_steps] False by (simp add: run_loaded)
qed

theorem trace_mode_transparent_witness:
  "fst (run 1000 True (loaded ''01'') \<lparr>stdin = replicate 8 '''', stdout = []\<rparr>) \<noteq> Inl EOFError \<and>
   fst (run 1000 True (loaded ''01'') \<lparr>stdin = replicate 8 '''', stdout = []\<rparr>) =
     fst (run 1000 False (loaded ''01'') quiet) \<and>
   history (snd (run 1000 True (loaded ''01'') \<lparr>stdin = replicate 8 '''', stdout = []\<rparr>)) =
     history (snd (run 1000 False (loaded ''01'') quiet)) \<and>
   machine (snd (run 1000 True (loaded ''01'') \<lparr>stdin = replicate 8 '''', stdout = []\<rparr>)) =
     machine (snd (run 1000 False (loaded ''01'') quiet)) \<and>
   fst (run 1000 False (loaded ''01'') quiet) = Inr Accept"
proof -
  have h: "fst (run 1000 True (loaded ''01'') \<lparr>stdin = replicate 8 '''', stdout = []\<rparr>) \<noteq> Inl EOFError"
    by code_simp
  have v: "fst (run 1000 False (loaded ''01'') quiet) = Inr Accept" by code_simp
  from trace_mode_transparent [OF h, of quiet] h v show ?thesis by blast
qed

text \<open>
  Claim C8. After a \<open>load_input\<close> that succeeds, a second \<open>load_input\<close> with the
  same string succeeds and yields the very same machine. In that configuration the head
  is at 0, the current state is the start state, and the tape holds the characters of the
  string at the positions \<open>0..len-1\<close> and nothing else.
\<close>

theorem load_input_idempotent:
  assumes "fst (load_input s m) = Inr ()"
  shows "load_input s (snd (load_input s m)) = load_input s m \<and>
         current_state (snd (load_input s m)) = Some (initial_state m) \<and>
         (\<exists>t. tape (snd (load_input s m)) = Some t \<and> head t = 0 \<and>
              (\<forall>i. map_of (content t) i =
                    (if 0 \<le> i \<and> i < int (length s) then Some [s ! nat i] else None)))"
  using assms
  by (auto simp: load_input_def Tape_init_lookup split: if_splits) (simp add: Tape_init_def)

theorem load_input_idempotent_witness:
  "fst (load_input ''0011'' create_on1n_machine) = Inr () \<and>
   load_input ''0011'' (snd (load_input ''0011'' create_on1n_machine)) =
     load_input ''0011'' create_on1n_machine \<and>
   current_state (snd (load_input ''0011'' create_on1n_machine)) =
     Some (initial_state create_on1n_machine)"
proof -
  have h: "fst (load_input ''0011'' create_on1n_machine) = Inr ()" by code_simp
  from load_input_idempotent [OF h] h show ?thesis by blast
qed

text \<open>
  The constructor takes the accept states as they are given: with \<open>"q_reject"\<close> among
  them, the accept set and the reject set overlap.
\<close>

theorem accept_reject_overlap_counterexample:
  "set (accept_states (TuringMachine_init [''q0'', ''q_reject''] [''0''] [''0'', ''_''] ''q0'' [''q_reject''] ''_''))
     \<inter> reject_states (TuringMachine_init [''q0'', ''q_reject''] [''0''] [''0'', ''_''] ''q0'' [''q_reject''] ''_'')
   \<noteq> {}"
  by (simp add: TuringMachine_init_def)

text \<open>
  Claim C9, amended. When the accept states given to the constructor do not contain
  \<open>"q_reject"\<close>, the accept set and the reject set of the machine are disjoint, and
  they stay so under every sequence of calls of \<open>add_transition\<close>, \<open>load_input\<close>,
  \<open>step\<close>, \<open>get_config\<close> and \<open>run\<close>: no call changes either set.
\<close>

theorem accept_reject_disjoint:
  assumes "''q_reject'' \<notin> set accept"
  shows "accept_states (fst (fold apply_operation ops (TuringMachine_init sts ia ta q0 accept b, c))) = accept \<and>
         reject_states (fst (fold apply_operation ops (TuringMachine_init sts ia ta q0 accept b, c))) = {''q_reject''} \<and>
         set (accept_states (fst (fold apply_operation ops (TuringMachine_init sts ia ta q0 accept b, c))))
           \<inter> reject_states (fst (fold apply_operation ops (TuringMachine_init sts ia ta q0 accept b, c))) = {}"
  using assms apply_operations_static [of ops "(TuringMachine_init sts ia ta q0 accept b, c)"]
  by (simp add: TuringMachine_init_def)

theorem accept_reject_disjoint_witness:
  "''q_reject'' \<notin> set [''q_accept''] \<and>
   set (accept_states (fst (fold apply_operation
          [AddTransition ''q0'' ''_'' ''q_accept'' ''_'' ''N'', LoadInput ''0'', Step, GetConfig, Run 5 False]
          (TuringMachine_init [''q0'', ''q_accept'', ''q_reject''] [''0''] [''0'', ''_''] ''q0'' [''q_accept''] ''_'', quiet))))
     \<inter> reject_states (fst (fold apply_operation
          [AddTransition ''q0'' ''_'' ''q_accept'' ''_'' ''N'', LoadInput ''0'', Step, GetConfig, Run 5 False]
          (TuringMachine_init [''q0'', ''q_accept'', ''q_reject''] [''0''] [''0'', ''_''] ''q0'' [''q_accept''] ''_'', quiet)))
   = {}"
proof -
  have h: "''q_reject'' \<notin> set [''q_accept'']" by simp
  from accept_reject_disjoint [OF h] h show ?thesis by blast
qed

text \<open>
  Claim C10. When \<open>run\<close> returns \<open>accept\<close> or \<open>reject\<close>, the last two entries of
  the history are the same configuration, the one of the machine as \<open>run\<close> leaves it,
  and the length of the history is the number of calls of \<open>step\<close> that returned
  \<open>continue\<close> plus two.
\<close>

theorem run_history_shape:
  assumes "fst (run max_steps step_by_step m c) = Inr st" and "st = Accept \<or> st = Reject"
  shows "(\<exists>hs cfg. history (snd (run max_steps step_by_step m c)) = hs @ [cfg, cfg] \<and>
            get_config (machine (snd (run max_steps step_by_step m c))) = Inr cfg) \<and>
         length (history (snd (run max_steps step_by_step m c))) =
           length (filter (\<lambda>x. x = Inr Continue) (calls (snd (run max_steps step_by_step m c)))) + 2"
proof -
  have t: "tape m \<noteq> None"
    using assms(1) by (auto simp: run_def split: if_splits)
  let ?rs = "\<lparr>machine = m, io = c, history = [], steps = 0, calls = []\<rparr>"
  let ?r = "run_loop max_steps step_by_step ?rs"
  have run: "run max_steps step_by_step m c = ?r"
    by (rule run_loaded [OF t])
  have t': "tape (machine ?rs) \<noteq> None" using t by simp
  have r: "fst ?r = Inr st" using assms(1) run by simp
  have "st \<noteq> Loop" using assms(2) by auto
  from loop_halted [OF t' r this] obtain hs cfg where
    h0: "history (snd ?r) = history ?rs @ hs @ [cfg, cfg]"
    and k0: "calls (snd ?r) = calls ?rs @ replicate (length hs) (Inr Continue) @ [Inr st]"
    and g: "get_config (machine (snd ?r)) = Inr cfg"
    and s: "st \<noteq> Continue"
    by blast
  from h0 have h: "history (snd ?r) = hs @ [cfg, cfg]" by simp
  from k0 have k: "calls (snd ?r) = replicate (length hs) (Inr Continue) @ [Inr st]" by simp
  from s have "length (filter (\<lambda>x. x = Inr Continue) (calls (snd ?r))) = length hs"
    unfolding k by simp
  with h g show ?thesis unfolding run by simp
qed

theorem run_history_shape_witness:
  "fst (run 1000 False (loaded ''01'') quiet) = Inr Accept \<and>
   (Accept = Accept \<or> Accept = Reject) \<and>
   (\<exists>hs cfg. history (snd (run 1000 False (loaded ''01'') quiet)) = hs @ [cfg, cfg] \<and>
      get_config (machine (snd (run 1000 False (loaded ''01'') quiet))) = Inr cfg) \<and>
   length (history (snd (run 1000 False (loaded ''01'') quiet))) =
     length (filter (\<lambda>x. x = Inr Continue) (calls (snd (run 1000 False (loaded ''01'') quiet)))) + 2 \<and>
   length (history (snd (run 1000 False (loaded ''01'') quiet))) = 9"
proof -
  have h: "fst (run 1000 False (loaded ''01'') quiet) = Inr Accept" by code_simp
  have d: "Accept = Accept \<or> Accept = Reject" by simp
  have n: "length (history (snd (run 1000 False (loaded ''01'') quiet))) = 9" by code_simp
  from run_history_shape [OF h d] h d n show ?thesis by blast
qed

end
